theory Spec2Isabelle
  imports Main "HOL-Library.Sublist" "HOL-Library.Multiset"
    "HOL-Library.List_Lexorder" "HOL-Library.Char_ord"
begin

section \<open>Data model\<close>

text \<open>
  A Go \<open>time.Time\<close> is an instant together with a location. The model keeps the instant
  as Unix seconds and nanoseconds within the second (\<open>0 \<le> nsec < 10^9\<close>), and of the
  location the offset east of UTC in seconds, which every value the program meets has
  in whole minutes (\<open>time.Now()\<close> in the server's zone, \<open>time.Parse\<close> of an RFC 3339
  text). \<open>Before\<close> compares the instants and ignores the offsets. The zero value
  \<open>time.Time{}\<close> is the first of January of the year 1, in UTC. A Go string is a byte
  list. A nil pointer (\<open>*time.Time\<close>, \<open>*string\<close>) and an SQL NULL are \<open>None\<close>.
\<close>

record Time =
  unixSec :: int
  nsec :: int
  zoneOffset :: int

definition Before :: "Time \<Rightarrow> Time \<Rightarrow> bool" where
  "Before t u \<longleftrightarrow> unixSec t < unixSec u \<or> (unixSec t = unixSec u \<and> nsec t < nsec u)"

definition zeroTime :: Time where
  "zeroTime = \<lparr>unixSec = - 62135596800, nsec = 0, zoneOffset = 0\<rparr>"

record ScheduledMessage =
  ID :: string
  Recipient :: string
  Message :: string
  ScheduledTime :: Time
  CreatedAt :: Time
  LastMessageAt :: Time
  CheckForResponse :: bool
  Status :: string
  SentAt :: "Time option"
  ErrorMessage :: "string option"

text \<open>
  The table \<open>scheduled_messages\<close>: its rows in insertion order. The column \<open>id\<close> is the
  primary key, so a reachable table has pairwise different identifiers
  (\<open>distinct (map ID db)\<close>). The store is taken to be reliable: a statement fails only
  where the schema makes it fail (the primary key on insert).
\<close>

type_synonym SchedulerDB = "ScheduledMessage list"

section \<open>Time values in the database\<close>

text \<open>
  The driver imported by \<open>scheduler_db.go\<close> binds a \<open>time.Time\<close> argument as the text
  \<open>v.Format("2006-01-02 15:04:05.999999999-07:00")\<close>: the civil date and the time of day
  in the value's own location, the fraction of the second without trailing zeros (and
  without the point when it is zero), and the value's own offset. The columns declared
  \<open>DATETIME\<close> hold that text, and SQLite compares and orders such texts byte by byte, a
  proper prefix first; that is the order of \<open>string\<close> here. \<open>appendInt\<close> and
  \<open>appendNano\<close> are the two helpers of \<open>Format\<close>, \<open>civil\<close> gives year, month and day of
  a day counted from the first of January 1970 in the proleptic Gregorian calendar.
\<close>

function decimal :: "nat \<Rightarrow> string" where
  "decimal n =
     (if n < 10 then [''0123456789'' ! n]
      else decimal (n div 10) @ [''0123456789'' ! (n mod 10)])"
  by pat_completeness auto
termination
  by (relation "measure id") auto

declare decimal.simps [simp del]

definition appendInt :: "int \<Rightarrow> nat \<Rightarrow> string" where
  "appendInt x width =
     (let ds = decimal (nat \<bar>x\<bar>)
      in (if x < 0 then ''-'' else []) @ replicate (width - length ds) (CHR ''0'') @ ds)"

definition appendNano :: "int \<Rightarrow> string" where
  "appendNano nanosec =
     (if nanosec = 0 then []
      else ''.'' @ rev (dropWhile (\<lambda>c. c = CHR ''0'') (rev (appendInt nanosec 9))))"

definition civil :: "int \<Rightarrow> int \<times> int \<times> int" where
  "civil days =
     (let z = days + 719468;
          era = z div 146097;
          doe = z mod 146097;
          yoe = (doe - doe div 1460 + doe div 36524 - doe div 146096) div 365;
          doy = doe - (365 * yoe + yoe div 4 - yoe div 100);
          mp = (5 * doy + 2) div 153;
          d = doy - (153 * mp + 2) div 5 + 1;
          m = (if mp < 10 then mp + 3 else mp - 9);
          y = yoe + era * 400 + (if m \<le> 2 then 1 else 0)
      in (y, m, d))"

definition sqliteTimestamp :: "Time \<Rightarrow> string" where
  "sqliteTimestamp t =
     (let loc = unixSec t + zoneOffset t;
          (year, month, day) = civil (loc div 86400);
          secs = loc mod 86400;
          zone = sgn (zoneOffset t) * (\<bar>zoneOffset t\<bar> div 60)
      in appendInt year 4 @ ''-'' @ appendInt month 2 @ ''-'' @ appendInt day 2 @ '' '' @
         appendInt (secs div 3600) 2 @ '':'' @ appendInt (secs mod 3600 div 60) 2 @ '':'' @
         appendInt (secs mod 60) 2 @ appendNano (nsec t) @
         (if zone < 0 then ''-'' else ''+'') @
         appendInt (\<bar>zone\<bar> div 60) 2 @ '':'' @ appendInt (\<bar>zone\<bar> mod 60) 2)"

section \<open>Persistence layer (scheduler\_db.go)\<close>

definition InsertScheduledMessage :: "ScheduledMessage \<Rightarrow> SchedulerDB \<Rightarrow> string + SchedulerDB" where
  "InsertScheduledMessage msg db =
     (if ID msg \<in> set (map ID db)
      then Inl ''UNIQUE constraint failed: scheduled_messages.id''
      else Inr (db @ [\<lparr>ID = ID msg, Recipient = Recipient msg, Message = Message msg,
                       ScheduledTime = ScheduledTime msg, CreatedAt = CreatedAt msg,
                       LastMessageAt = LastMessageAt msg,
                       CheckForResponse = CheckForResponse msg, Status = Status msg,
                       SentAt = None, ErrorMessage = None\<rparr>]))"

text \<open>
  \<open>WHERE status = 'pending' AND scheduled_time <= ? ORDER BY scheduled_time ASC\<close>: the
  test and the order are those of the stored texts, and the argument \<open>now\<close> is bound as
  its text too. The statement names no second key; SQLite finds the pending rows through
  the index on \<open>status\<close>, in row order, and sorts them stably, so rows with equal texts
  come out in row order.
\<close>

definition GetPendingMessages :: "SchedulerDB \<Rightarrow> Time \<Rightarrow> ScheduledMessage list" where
  "GetPendingMessages db now =
     sort_key (\<lambda>m. sqliteTimestamp (ScheduledTime m))
       (filter (\<lambda>m. Status m = ''pending'' \<and>
                     sqliteTimestamp (ScheduledTime m) \<le> sqliteTimestamp now) db)"

text \<open>
  \<open>ORDER BY scheduled_time DESC\<close>, again on the texts. Without a filter SQLite walks the
  index on \<open>scheduled_time\<close> backwards, so rows with equal texts come out in reverse row
  order; with a filter it finds the rows through the filter's index, in row order, and
  sorts them stably, so rows with equal texts come out in row order.
\<close>

definition GetAllScheduledMessages :: "SchedulerDB \<Rightarrow> string \<Rightarrow> string \<Rightarrow> ScheduledMessage list" where
  "GetAllScheduledMessages db status recipient =
     (if status = [] \<and> recipient = []
      then rev (sort_key (\<lambda>m. sqliteTimestamp (ScheduledTime m)) db)
      else rev (sort_key (\<lambda>m. sqliteTimestamp (ScheduledTime m))
                  (rev (filter (\<lambda>m. (status = [] \<or> Status m = status) \<and>
                                     (recipient = [] \<or> Recipient m = recipient)) db))))"

definition GetScheduledMessage :: "SchedulerDB \<Rightarrow> string \<Rightarrow> string + ScheduledMessage" where
  "GetScheduledMessage db i =
     (case find (\<lambda>m. ID m = i) db of
        None \<Rightarrow> Inl ''scheduled message not found''
      | Some m \<Rightarrow> Inr m)"

definition UpdateMessageStatus ::
  "string \<Rightarrow> string \<Rightarrow> Time option \<Rightarrow> string option \<Rightarrow> SchedulerDB \<Rightarrow> SchedulerDB" where
  "UpdateMessageStatus i status sentAt errorMsg db =
     map (\<lambda>m. if ID m = i
               then m\<lparr>Status := status, SentAt := sentAt, ErrorMessage := errorMsg\<rparr>
               else m) db"

section \<open>Recipient normalisation\<close>

text \<open>
  The slice expression \<open>s[i:j]\<close> panics unless \<open>0 \<le> i \<le> j \<le> len(s)\<close>; the panic is the
  value \<open>None\<close>, which the two helpers pass on. The conjunction and disjunction of
  \<open>contains\<close> evaluate left to right and stop early, as \<open>&&\<close> and \<open>||\<close> do.
\<close>

definition slice :: "string \<Rightarrow> int \<Rightarrow> int \<Rightarrow> string option" where
  "slice s i j =
     (if 0 \<le> i \<and> i \<le> j \<and> j \<le> int (length s)
      then Some (take (nat (j - i)) (drop (nat i) s)) else None)"

function containsMiddle_from :: "string \<Rightarrow> string \<Rightarrow> int \<Rightarrow> bool option" where
  "containsMiddle_from s substr i =
     (if i \<le> int (length s) - int (length substr)
      then (case slice s i (i + int (length substr)) of
              None \<Rightarrow> None
            | Some t \<Rightarrow> if t = substr then Some True
                        else containsMiddle_from s substr (i + 1))
      else Some False)"
  by pat_completeness auto
termination
  by (relation "measure (\<lambda>(s, substr, i). nat (int (length s) - int (length substr) + 1 - i))") auto

declare containsMiddle_from.simps [simp del]

definition containsMiddle :: "string \<Rightarrow> string \<Rightarrow> bool option" where
  "containsMiddle s substr = containsMiddle_from s substr 0"

definition contains :: "string \<Rightarrow> string \<Rightarrow> bool option" where
  "contains s substr =
     (if length s > 0 \<and> length substr > 0 \<and> s \<noteq> [] \<and> substr \<noteq> [] then
        (if s = substr then Some True
         else if length s > length substr then
           (case slice s 0 (int (length substr)) of
              None \<Rightarrow> None
            | Some p \<Rightarrow>
                if p = substr then Some True
                else (case slice s (int (length s) - int (length substr)) (int (length s)) of
                        None \<Rightarrow> None
                      | Some q \<Rightarrow> if q = substr then Some True else containsMiddle s substr))
         else Some False)
      else Some False)"

text \<open>
  Both \<open>hasRecipientResponded\<close> and \<open>ScheduleMessage\<close> append the domain when
  \<open>contains(recipient, "@")\<close> is false.
\<close>

definition normalizeJID :: "string \<Rightarrow> string" where
  "normalizeJID recipient =
     (if contains recipient ''@'' = Some False then recipient @ ''@s.whatsapp.net'' else recipient)"

section \<open>Scheduling engine\<close>

text \<open>
  The two collaborators of the engine are parameters. The message table of the bridge
  answers the query of \<open>hasRecipientResponded\<close> (sender, instant) with an error text
  or with the count of later incoming messages; the message sender answers
  (recipient, message) with a success flag and an error text. The engine's state is
  the table together with the calls made to the sender so far, each recorded with the
  identifier of the item it was made for.
\<close>

type_synonym whatsappDB = "string \<Rightarrow> Time \<Rightarrow> string + nat"

type_synonym MessageSender = "string \<Rightarrow> string \<Rightarrow> bool \<times> string"

type_synonym send_call = "string \<times> string \<times> string"

record world =
  store :: SchedulerDB
  sends :: "send_call list"

definition hasRecipientResponded :: "whatsappDB \<Rightarrow> string \<Rightarrow> Time \<Rightarrow> string + bool" where
  "hasRecipientResponded wdb recipient afterTime =
     (case wdb (normalizeJID recipient) afterTime of
        Inl err \<Rightarrow> Inl err
      | Inr cnt \<Rightarrow> Inr (cnt > 0))"

definition pausedReason :: string where
  "pausedReason = ''Recipient responded before scheduled time''"

text \<open>The loop of \<open>checkAndPauseFutureMessages\<close> over the snapshot \<open>allPending\<close>.\<close>

fun pauseLoop :: "whatsappDB \<Rightarrow> ScheduledMessage list \<Rightarrow> SchedulerDB \<Rightarrow> SchedulerDB" where
  "pauseLoop wdb [] db = db"
| "pauseLoop wdb (msg # rest) db =
     (if \<not> CheckForResponse msg then pauseLoop wdb rest db
      else (case hasRecipientResponded wdb (Recipient msg) (CreatedAt msg) of
              Inl err \<Rightarrow> pauseLoop wdb rest db
            | Inr hasNewMessage \<Rightarrow>
                if hasNewMessage
                then pauseLoop wdb rest
                       (UpdateMessageStatus (ID msg) ''paused'' None (Some pausedReason) db)
                else pauseLoop wdb rest db))"

definition checkAndPauseFutureMessages :: "whatsappDB \<Rightarrow> Time \<Rightarrow> SchedulerDB \<Rightarrow> SchedulerDB" where
  "checkAndPauseFutureMessages wdb now db =
     pauseLoop wdb (GetAllScheduledMessages db ''pending'' []) db"

text \<open>
  \<open>processSingleMessage\<close>: \<open>sentNow\<close> is the reading of \<open>time.Now()\<close> taken after a
  successful send. The result is the returned error (\<open>None\<close> for nil) and the new state.
  The variable \<open>shouldSend\<close> is true wherever the source reads it (the branch that
  clears it returns at once), so its test is not a branch of the model.
\<close>

definition processSingleMessage ::
  "whatsappDB \<Rightarrow> MessageSender \<Rightarrow> Time \<Rightarrow> ScheduledMessage \<Rightarrow> world \<Rightarrow> string option \<times> world" where
  "processSingleMessage wdb messageSender sentNow msg w =
     (let deliver =
        (let (success, errMsg) = messageSender (Recipient msg) (Message msg);
             called = sends w @ [(ID msg, Recipient msg, Message msg)]
         in if \<not> success
            then (Some (''failed to send message: '' @ errMsg),
                  \<lparr>store = UpdateMessageStatus (ID msg) ''failed'' None (Some errMsg) (store w),
                   sends = called\<rparr>)
            else (None,
                  \<lparr>store = UpdateMessageStatus (ID msg) ''sent'' (Some sentNow) None (store w),
                   sends = called\<rparr>))
      in if CheckForResponse msg
         then (case hasRecipientResponded wdb (Recipient msg) (CreatedAt msg) of
                 Inl err \<Rightarrow>
                   (Some err,
                    w\<lparr>store := UpdateMessageStatus (ID msg) ''failed'' None
                                 (Some (''Error checking recipient response: '' @ err)) (store w)\<rparr>)
               | Inr hasResponded \<Rightarrow>
                   if hasResponded
                   then (None,
                         w\<lparr>store := UpdateMessageStatus (ID msg) ''paused'' None
                                      (Some pausedReason) (store w)\<rparr>)
                   else deliver)
         else deliver)"

text \<open>
  The loop of \<open>processScheduledMessages\<close> over the due snapshot; an error of one
  message is logged and the loop goes on. \<open>clock i\<close> is the reading of \<open>time.Now()\<close>
  taken while the item \<open>i\<close> is marked as sent.
\<close>

fun processLoop ::
  "whatsappDB \<Rightarrow> MessageSender \<Rightarrow> (string \<Rightarrow> Time) \<Rightarrow> ScheduledMessage list \<Rightarrow> world \<Rightarrow> world" where
  "processLoop wdb messageSender clock [] w = w"
| "processLoop wdb messageSender clock (msg # rest) w =
     processLoop wdb messageSender clock rest
       (snd (processSingleMessage wdb messageSender (clock (ID msg)) msg w))"

text \<open>
  One tick. The message table of the bridge may change between the two phases, so
  each phase has its own view of it: \<open>wdb1\<close> during the sweep, \<open>wdb2\<close> during delivery.
\<close>

definition processScheduledMessages ::
  "whatsappDB \<Rightarrow> whatsappDB \<Rightarrow> MessageSender \<Rightarrow> (string \<Rightarrow> Time) \<Rightarrow> Time \<Rightarrow> world \<Rightarrow> world" where
  "processScheduledMessages wdb1 wdb2 messageSender clock now w =
     (let w1 = w\<lparr>store := checkAndPauseFutureMessages wdb1 now (store w)\<rparr>;
          messages = GetPendingMessages (store w1) now
      in if length messages = 0 then w1
         else processLoop wdb2 messageSender clock messages w1)"

text \<open>
  \<open>ScheduleMessage\<close>: \<open>now1\<close> and \<open>now2\<close> are the two readings of \<open>time.Now()\<close> (the
  validation and \<open>CreatedAt\<close>), \<open>newID\<close> is the fresh UUID, \<open>getLastMessageTime\<close> the
  lookup of the recipient's last incoming message (the zero time when there is none).
\<close>

definition ScheduleMessage ::
  "(string \<Rightarrow> string + Time) \<Rightarrow> Time \<Rightarrow> Time \<Rightarrow> string \<Rightarrow>
   string \<Rightarrow> string \<Rightarrow> Time \<Rightarrow> bool \<Rightarrow> SchedulerDB \<Rightarrow> (string + ScheduledMessage) \<times> SchedulerDB" where
  "ScheduleMessage getLastMessageTime now1 now2 newID recipient message scheduledTime checkForResponse db =
     (if Before scheduledTime now1 then (Inl ''scheduled time must be in the future'', db)
      else
        (let recipientJID = normalizeJID recipient;
             lastMessageAt = (case getLastMessageTime recipientJID of
                                Inl err \<Rightarrow> zeroTime
                              | Inr t \<Rightarrow> t);
             scheduledMsg = \<lparr>ID = newID, Recipient = recipientJID, Message = message,
                             ScheduledTime = scheduledTime, CreatedAt = now2,
                             LastMessageAt = lastMessageAt,
                             CheckForResponse = checkForResponse, Status = ''pending'',
                             SentAt = None, ErrorMessage = None\<rparr>
         in (case InsertScheduledMessage scheduledMsg db of
               Inl err \<Rightarrow> (Inl (''failed to insert scheduled message: '' @ err), db)
             | Inr db' \<Rightarrow> (Inr scheduledMsg, db'))))"

section \<open>Control surface\<close>

text \<open>
  The handler of \<open>/api/scheduled/{id}\<close>, one function per method. A response is the
  success message or the status code and text of \<open>http.Error\<close>. The body of a PATCH
  request is the decoded \<open>action\<close>, or \<open>None\<close> when decoding fails.
\<close>

datatype http_response = Success string | HttpError nat string

definition handleDelete :: "string \<Rightarrow> SchedulerDB \<Rightarrow> http_response \<times> SchedulerDB" where
  "handleDelete i db =
     (if i = [] then (HttpError 400 ''Message ID is required'', db)
      else (case GetScheduledMessage db i of
              Inl err \<Rightarrow> (HttpError 404 ''Message not found'', db)
            | Inr msg \<Rightarrow>
                if Status msg \<noteq> ''pending'' \<and> Status msg \<noteq> ''paused''
                then (HttpError 400 ''Can only cancel pending or paused messages'', db)
                else (Success ''Message cancelled successfully'',
                      UpdateMessageStatus i ''cancelled'' None (Some ''Cancelled by user'') db)))"

definition handlePatch :: "string \<Rightarrow> string option \<Rightarrow> SchedulerDB \<Rightarrow> http_response \<times> SchedulerDB" where
  "handlePatch i body db =
     (if i = [] then (HttpError 400 ''Message ID is required'', db)
      else (case body of
              None \<Rightarrow> (HttpError 400 ''Invalid request body'', db)
            | Some action \<Rightarrow>
                (case GetScheduledMessage db i of
                   Inl err \<Rightarrow> (HttpError 404 ''Message not found'', db)
                 | Inr msg \<Rightarrow>
                     if action = ''pause'' then
                       (if Status msg \<noteq> ''pending''
                        then (HttpError 400 ''Can only pause pending messages'', db)
                        else (Success (''Message '' @ action @ ''d successfully''),
                              UpdateMessageStatus i ''paused'' None (Some ''Paused by user'') db))
                     else if action = ''resume'' then
                       (if Status msg \<noteq> ''paused''
                        then (HttpError 400 ''Can only resume paused messages'', db)
                        else (Success (''Message '' @ action @ ''d successfully''),
                              UpdateMessageStatus i ''pending'' None None db))
                     else (HttpError 400
                             (''Invalid action. Use '' @ [CHR 0x27] @ ''pause'' @ [CHR 0x27] @
                              '' or '' @ [CHR 0x27] @ ''resume'' @ [CHR 0x27]), db))))"

section \<open>Specification predicates\<close>

text \<open>The pattern \<open>substr\<close> stands in \<open>s\<close> at the byte offset \<open>j\<close>.\<close>

definition occurs_at :: "string \<Rightarrow> string \<Rightarrow> nat \<Rightarrow> bool" where
  "occurs_at s substr j \<longleftrightarrow> j + length substr \<le> length s \<and> take (length substr) (drop j s) = substr"

text \<open>
  The first row with a given identifier (what \<open>GetScheduledMessage\<close> reads), the three
  fields an update writes, and the calls to the sender made for one item.
\<close>

definition row :: "SchedulerDB \<Rightarrow> string \<Rightarrow> ScheduledMessage option" where
  "row db i = find (\<lambda>m. ID m = i) db"

definition setStatus :: "string \<Rightarrow> Time option \<Rightarrow> string option \<Rightarrow> ScheduledMessage \<Rightarrow> ScheduledMessage" where
  "setStatus status sentAt errorMsg m = m\<lparr>Status := status, SentAt := sentAt, ErrorMessage := errorMsg\<rparr>"

definition calls_for :: "string \<Rightarrow> send_call list \<Rightarrow> send_call list" where
  "calls_for i calls = filter (\<lambda>c. fst c = i) calls"

text \<open>The sweep pauses an item: its flag is set and the response query answers true.\<close>

definition should_pause :: "whatsappDB \<Rightarrow> ScheduledMessage \<Rightarrow> bool" where
  "should_pause wdb x \<longleftrightarrow>
     CheckForResponse x \<and> hasRecipientResponded wdb (Recipient x) (CreatedAt x) = Inr True"

text \<open>
  The field invariant of an item: a sent item has a sent timestamp and no reason; a
  failed, paused or cancelled item has a reason and no sent timestamp. \<open>valid_fields\<close>
  says the same of the three values an update writes.
\<close>

definition item_inv :: "ScheduledMessage \<Rightarrow> bool" where
  "item_inv m \<longleftrightarrow>
     (Status m = ''sent'' \<longrightarrow> SentAt m \<noteq> None \<and> ErrorMessage m = None) \<and>
     (Status m = ''failed'' \<or> Status m = ''paused'' \<or> Status m = ''cancelled''
        \<longrightarrow> ErrorMessage m \<noteq> None \<and> SentAt m = None)"

definition valid_fields :: "string \<Rightarrow> Time option \<Rightarrow> string option \<Rightarrow> bool" where
  "valid_fields status sentAt errorMsg \<longleftrightarrow>
     item_inv \<lparr>ID = [], Recipient = [], Message = [], ScheduledTime = zeroTime,
               CreatedAt = zeroTime, LastMessageAt = zeroTime,
               CheckForResponse = False, Status = status,
               SentAt = sentAt, ErrorMessage = errorMsg\<rparr>"

text \<open>
  The edges of the state machine, and the relation between a table and a later one:
  every item of the first is still stored, with the same status or with one that an
  edge leads to.
\<close>

definition edge :: "string \<Rightarrow> string \<Rightarrow> bool" where
  "edge a b \<longleftrightarrow>
     (a = ''pending'' \<and> (b = ''sent'' \<or> b = ''paused'' \<or> b = ''cancelled'' \<or> b = ''failed'')) \<or>
     (a = ''paused'' \<and> (b = ''pending'' \<or> b = ''cancelled''))"

definition follows_edges :: "SchedulerDB \<Rightarrow> SchedulerDB \<Rightarrow> bool" where
  "follows_edges db db' =
     list_all (\<lambda>m. case GetScheduledMessage db' (ID m) of
                      Inl err \<Rightarrow> False
                    | Inr m' \<Rightarrow> Status m' = Status m \<or> edge (Status m) (Status m')) db"

section \<open>Concrete inputs\<close>

text \<open>
  Times in UTC, given by their Unix seconds. Two pending items, one with the response
  check; a message table whose query finds a response, one that finds none and one that
  fails; a sender that succeeds and one that fails; a clock.
\<close>

definition utc :: "int \<Rightarrow> Time" where
  "utc s = \<lparr>unixSec = s, nsec = 0, zoneOffset = 0\<rparr>"

definition msgA :: ScheduledMessage where
  "msgA = \<lparr>ID = ''a'', Recipient = ''111@s.whatsapp.net'', Message = ''hello'',
           ScheduledTime = utc 10, CreatedAt = utc 1, LastMessageAt = zeroTime,
           CheckForResponse = True, Status = ''pending'', SentAt = None,
           ErrorMessage = None\<rparr>"

definition msgB :: ScheduledMessage where
  "msgB = \<lparr>ID = ''b'', Recipient = ''222@s.whatsapp.net'', Message = ''bye'',
           ScheduledTime = utc 5, CreatedAt = utc 2, LastMessageAt = zeroTime,
           CheckForResponse = False, Status = ''pending'', SentAt = None,
           ErrorMessage = None\<rparr>"

definition world0 :: world where
  "world0 = \<lparr>store = [msgA, msgB], sends = []\<rparr>"

definition wdbResponded :: whatsappDB where
  "wdbResponded jid t = Inr 1"

definition wdbSilent :: whatsappDB where
  "wdbSilent jid t = Inr 0"

definition wdbDown :: whatsappDB where
  "wdbDown jid t = Inl ''database is locked''"

definition sendOK :: MessageSender where
  "sendOK recipient message = (True, [])"

definition sendDown :: MessageSender where
  "sendDown recipient message = (False, ''Not connected to WhatsApp'')"

definition clock12 :: "string \<Rightarrow> Time" where
  "clock12 i = utc 12"

text \<open>
  An item scheduled through \<open>POST /api/schedule\<close> with the text
  \<open>2025-10-06T12:00:00+02:00\<close> (10:00:00 UTC), created at 09:00:00 UTC on a server whose
  zone is UTC, and the server's time an hour after the item's scheduled time,
  11:00:00 UTC.
\<close>

definition lateItem :: ScheduledMessage where
  "lateItem = \<lparr>ID = ''x'', Recipient = ''333@s.whatsapp.net'', Message = ''reminder'',
               ScheduledTime = \<lparr>unixSec = 1759744800, nsec = 0, zoneOffset = 7200\<rparr>,
               CreatedAt = utc 1759741200, LastMessageAt = zeroTime,
               CheckForResponse = False, Status = ''pending'', SentAt = None,
               ErrorMessage = None\<rparr>"

definition elevenUTC :: Time where
  "elevenUTC = utc 1759748400"

text \<open>
  An item scheduled with the text \<open>2025-10-06T10:00:00-02:00\<close> (12:00:00 UTC), an hour
  after that server time.
\<close>

definition earlyItem :: ScheduledMessage where
  "earlyItem = \<lparr>ID = ''y'', Recipient = ''444@s.whatsapp.net'', Message = ''lunch'',
                ScheduledTime = \<lparr>unixSec = 1759752000, nsec = 0, zoneOffset = - 7200\<rparr>,
                CreatedAt = utc 1759741200, LastMessageAt = zeroTime,
                CheckForResponse = False, Status = ''pending'', SentAt = None,
                ErrorMessage = None\<rparr>"

section \<open>Properties of the recipient normalisation\<close>

lemma sublist_iff_occurs: "sublist substr s \<longleftrightarrow> (\<exists>j. occurs_at s substr j)"
proof
  assume "sublist substr s"
  then obtain ps ss where "s = ps @ substr @ ss" by (auto simp: sublist_def)
  then have "occurs_at s substr (length ps)" by (simp add: occurs_at_def)
  then show "\<exists>j. occurs_at s substr j" ..
next
  assume "\<exists>j. occurs_at s substr j"
  then obtain j where j: "j + length substr \<le> length s" "take (length substr) (drop j s) = substr"
    by (auto simp: occurs_at_def)
  have "s = take j s @ take (length substr) (drop j s) @ drop (length substr) (drop j s)"
    by (simp only: append_take_drop_id)
  with j show "sublist substr s" unfolding sublist_def by metis
qed

lemma containsMiddle_from_spec:
  "0 \<le> i \<Longrightarrow> containsMiddle_from s substr i = Some (\<exists>j. nat i \<le> j \<and> occurs_at s substr j)"
proof (induction s substr i rule: containsMiddle_from.induct)
  case (1 s substr i)
  show ?case
  proof (cases "i \<le> int (length s) - int (length substr)")
    case False
    then have "\<not> (\<exists>j. nat i \<le> j \<and> occurs_at s substr j)"
      using "1.prems" by (auto simp: occurs_at_def)
    with False show ?thesis by (simp add: containsMiddle_from.simps [of s substr i])
  next
    case True
    have sl: "slice s i (i + int (length substr)) = Some (take (length substr) (drop (nat i) s))"
      using True "1.prems" by (simp add: slice_def)
    show ?thesis
    proof (cases "take (length substr) (drop (nat i) s) = substr")
      case hit: True
      have "occurs_at s substr (nat i)" using hit True "1.prems" by (simp add: occurs_at_def)
      then have "\<exists>j. nat i \<le> j \<and> occurs_at s substr j" by blast
      with True sl hit show ?thesis by (simp add: containsMiddle_from.simps [of s substr i])
    next
      case miss: False
      have ih: "containsMiddle_from s substr (i + 1) = Some (\<exists>j. nat (i + 1) \<le> j \<and> occurs_at s substr j)"
        using "1.IH" [OF True sl miss] "1.prems" by simp
      have "(\<exists>j. nat (i + 1) \<le> j \<and> occurs_at s substr j) \<longleftrightarrow> (\<exists>j. nat i \<le> j \<and> occurs_at s substr j)"
      proof
        assume "\<exists>j. nat (i + 1) \<le> j \<and> occurs_at s substr j"
        then obtain j where "nat (i + 1) \<le> j" "occurs_at s substr j" by blast
        moreover have "nat i \<le> nat (i + 1)" by simp
        ultimately show "\<exists>j. nat i \<le> j \<and> occurs_at s substr j" using le_trans by blast
      next
        assume "\<exists>j. nat i \<le> j \<and> occurs_at s substr j"
        then obtain j where j: "nat i \<le> j" "occurs_at s substr j" by blast
        have "j \<noteq> nat i" using j(2) miss by (auto simp: occurs_at_def)
        with j(1) have "nat (i + 1) \<le> j" using "1.prems" by linarith
        with j(2) show "\<exists>j. nat (i + 1) \<le> j \<and> occurs_at s substr j" by blast
      qed
      with ih True sl miss show ?thesis by (simp add: containsMiddle_from.simps [of s substr i])
    qed
  qed
qed

lemma containsMiddle_spec: "containsMiddle s substr = Some (sublist substr s)"
  using containsMiddle_from_spec [of 0 s substr]
  by (simp add: containsMiddle_def sublist_iff_occurs)

lemma contains_spec: "contains s substr = Some (substr \<noteq> [] \<and> sublist substr s)"
proof (cases "s = [] \<or> substr = []")
  case True
  then show ?thesis by (auto simp: contains_def)
next
  case ne: False
  show ?thesis
  proof (cases "s = substr")
    case True
    with ne show ?thesis by (simp add: contains_def)
  next
    case neq: False
    show ?thesis
    proof (cases "length s > length substr")
      case False
      have "\<not> sublist substr s"
      proof
        assume "sublist substr s"
        then obtain ps ss where e: "s = ps @ substr @ ss" by (auto simp: sublist_def)
        with False have "ps = [] \<and> ss = []" by auto
        with e neq show False by simp
      qed
      with ne neq False show ?thesis by (simp add: contains_def)
    next
      case True
      have s1: "slice s 0 (int (length substr)) = Some (take (length substr) s)"
        using True by (simp add: slice_def)
      have s2: "slice s (int (length s) - int (length substr)) (int (length s))
                  = Some (drop (length s - length substr) s)"
        using True by (simp add: slice_def nat_diff_distrib')
      have p: "take (length substr) s = substr \<Longrightarrow> sublist substr s"
        by (metis append_take_drop_id prefix_def prefix_imp_sublist append_Nil sublist_appendI)
      have q: "drop (length s - length substr) s = substr \<Longrightarrow> sublist substr s"
        by (metis append_take_drop_id suffix_def suffix_imp_sublist)
      show ?thesis
        using ne neq True s1 s2 p q
        by (auto simp: contains_def containsMiddle_spec)
    qed
  qed
qed

lemma normalizeJID_spec:
  "normalizeJID r = (if CHR ''@'' \<in> set r then r else r @ ''@s.whatsapp.net'')"
proof -
  have "sublist ''@'' r \<longleftrightarrow> CHR ''@'' \<in> set r"
    by (auto simp: sublist_def in_set_conv_decomp)
  then show ?thesis by (simp add: normalizeJID_def contains_spec)
qed


text \<open>
  C10: \<open>contains\<close> never panics; on a non-empty pattern it answers true exactly when the
  pattern occurs as a contiguous block of the string (the library predicate \<open>sublist\<close>),
  and on the empty pattern it answers false. Hence the normalisation appends
  \<open>@s.whatsapp.net\<close> exactly when the recipient holds no \<open>@\<close>.
\<close>

theorem contains_refines_sublist:
  "contains s substr = Some (substr \<noteq> [] \<and> sublist substr s) \<and>
   (substr \<noteq> [] \<longrightarrow> (contains s substr = Some True \<longleftrightarrow> sublist substr s)) \<and>
   normalizeJID r = (if CHR ''@'' \<in> set r then r else r @ ''@s.whatsapp.net'')"
  by (simp add: contains_spec normalizeJID_spec)

theorem contains_refines_sublist_witness:
  "''@'' \<noteq> [] \<and> contains ''ab@c'' ''@'' = Some True \<and> sublist ''@'' ''ab@c'' \<and>
   normalizeJID ''12345'' = ''12345@s.whatsapp.net''"
proof -
  have c: "contains ''ab@c'' ''@'' = Some True"
    by code_simp
  show ?thesis
    using c contains_refines_sublist [of "''ab@c''" "''@''" "''12345''"] by simp
qed

section \<open>Rows of the table\<close>

lemma ID_setStatus [simp]: "ID (setStatus s sa em m) = ID m"
  by (simp add: setStatus_def)

lemma UpdateMessageStatus_map:
  "UpdateMessageStatus i s sa em db = map (\<lambda>m. if ID m = i then setStatus s sa em m else m) db"
  by (simp add: UpdateMessageStatus_def setStatus_def)

lemma map_ID_Update [simp]: "map ID (UpdateMessageStatus i s sa em db) = map ID db"
  by (simp add: UpdateMessageStatus_def)

lemma length_Update [simp]: "length (UpdateMessageStatus i s sa em db) = length db"
  by (simp add: UpdateMessageStatus_def)

lemma row_Update:
  "row (UpdateMessageStatus i s sa em db) j =
     (if j = i then map_option (setStatus s sa em) (row db i) else row db j)"
  by (induction db) (auto simp: row_def UpdateMessageStatus_map)

lemma row_mem: "distinct (map ID db) \<Longrightarrow> m \<in> set db \<Longrightarrow> row db (ID m) = Some m"
  by (induction db) (auto simp: row_def)

lemma row_SomeD: "row db i = Some m \<Longrightarrow> m \<in> set db \<and> ID m = i"
  unfolding row_def by (auto simp: find_Some_iff)

lemma row_None_iff: "row db i = None \<longleftrightarrow> i \<notin> ID ` set db"
  unfolding row_def by (auto simp: find_None_iff)

lemma GetScheduledMessage_row:
  "GetScheduledMessage db i = (case row db i of None \<Rightarrow> Inl ''scheduled message not found'' | Some m \<Rightarrow> Inr m)"
  by (simp add: GetScheduledMessage_def row_def)

section \<open>Persistence layer: frame and due query\<close>

text \<open>
  C9: \<open>UpdateMessageStatus\<close> keeps the number and the order of the rows. In the rows
  with the given identifier it overwrites the status, the sent timestamp and the error
  text with the supplied values, whatever they were, and keeps the identifier, recipient,
  message, scheduled time, creation time, last-message baseline and response-check flag.
  Every other row is unchanged.
\<close>

theorem UpdateMessageStatus_frame:
  "length (UpdateMessageStatus i status sentAt errorMsg db) = length db \<and>
   (\<forall>k < length db.
      let m = db ! k; m' = UpdateMessageStatus i status sentAt errorMsg db ! k
      in ID m' = ID m \<and> Recipient m' = Recipient m \<and> Message m' = Message m \<and>
         ScheduledTime m' = ScheduledTime m \<and> CreatedAt m' = CreatedAt m \<and>
         LastMessageAt m' = LastMessageAt m \<and> CheckForResponse m' = CheckForResponse m \<and>
         (if ID m = i
          then Status m' = status \<and> SentAt m' = sentAt \<and> ErrorMessage m' = errorMsg
          else m' = m))"
  by (simp add: UpdateMessageStatus_def Let_def)

theorem UpdateMessageStatus_frame_witness:
  "UpdateMessageStatus ''a'' ''sent'' (Some (utc 12)) None [msgA, msgB]
     = [msgA\<lparr>Status := ''sent'', SentAt := Some (utc 12), ErrorMessage := None\<rparr>, msgB]"
proof -
  have "ID (UpdateMessageStatus ''a'' ''sent'' (Some (utc 12)) None [msgA, msgB] ! 0) = ID ([msgA, msgB] ! 0)"
    using UpdateMessageStatus_frame [of "''a''" "''sent''" "Some (utc 12)" None "[msgA, msgB]"]
    by (simp add: Let_def)
  then show ?thesis
    by (simp add: UpdateMessageStatus_def msgA_def msgB_def)
qed

text \<open>
  What the due query selects: the pending rows whose scheduled-time text is at most the
  text of \<open>now\<close>, in the order of the texts, rows with equal texts in row order.
\<close>

lemma GetPendingMessages_by_text:
  "set (GetPendingMessages db now)
     = {m \<in> set db. Status m = ''pending'' \<and>
                     sqliteTimestamp (ScheduledTime m) \<le> sqliteTimestamp now} \<and>
   sorted (map (\<lambda>m. sqliteTimestamp (ScheduledTime m)) (GetPendingMessages db now)) \<and>
   filter (\<lambda>m. sqliteTimestamp (ScheduledTime m) = k) (GetPendingMessages db now)
     = filter (\<lambda>m. sqliteTimestamp (ScheduledTime m) = k)
         (filter (\<lambda>m. Status m = ''pending'' \<and>
                       sqliteTimestamp (ScheduledTime m) \<le> sqliteTimestamp now) db)"
  unfolding GetPendingMessages_def
  by (simp add: sort_key_stable)

lemma sqliteTimestamp_examples:
  "sqliteTimestamp (ScheduledTime lateItem) = ''2025-10-06 12:00:00+02:00''"
  "sqliteTimestamp (ScheduledTime earlyItem) = ''2025-10-06 10:00:00-02:00''"
  "sqliteTimestamp elevenUTC = ''2025-10-06 11:00:00+00:00''"
  "sqliteTimestamp zeroTime = ''0001-01-01 00:00:00+00:00''"
  by code_simp+

lemma utc_texts:
  "sqliteTimestamp (utc 3) = ''1970-01-01 00:00:03+00:00''"
  "sqliteTimestamp (utc 5) = ''1970-01-01 00:00:05+00:00''"
  "sqliteTimestamp (utc 10) = ''1970-01-01 00:00:10+00:00''"
  "sqliteTimestamp (utc 20) = ''1970-01-01 00:00:20+00:00''"
  by code_simp+

text \<open>
  C7: the query does not return exactly the pending items whose scheduled time is at or
  before \<open>now\<close>. At 11:00:00 UTC the pending item scheduled for 12:00:00+02:00, which
  was due at 10:00:00 UTC, is left out, because its text is the greater one; and the
  pending item scheduled for 10:00:00-02:00, which is due only at 12:00:00 UTC, is
  returned, because its text is the smaller one.
\<close>

theorem GetPendingMessages_compares_texts:
  "Status lateItem = ''pending'' \<and> Before (ScheduledTime lateItem) elevenUTC \<and>
   GetPendingMessages [lateItem] elevenUTC = [] \<and>
   Status earlyItem = ''pending'' \<and> Before elevenUTC (ScheduledTime earlyItem) \<and>
   GetPendingMessages [earlyItem] elevenUTC = [earlyItem]"
  by (simp add: GetPendingMessages_def sqliteTimestamp_examples)
     (simp add: lateItem_def earlyItem_def elevenUTC_def utc_def Before_def)

section \<open>Control surface: cancel, pause, resume\<close>

lemma GetScheduledMessage_mem:
  "distinct (map ID db) \<Longrightarrow> m \<in> set db \<Longrightarrow> GetScheduledMessage db (ID m) = Inr m"
  by (simp add: GetScheduledMessage_row row_mem)

lemma GetScheduledMessage_Update:
  "GetScheduledMessage (UpdateMessageStatus i s sa em db) j =
     (if j = i then map_sum id (setStatus s sa em) (GetScheduledMessage db i)
      else GetScheduledMessage db j)"
  by (simp add: GetScheduledMessage_row row_Update split: option.splits)

text \<open>
  C6: for a stored item (with a non-empty identifier, as the route requires). DELETE
  succeeds exactly from pending or paused and leaves the item cancelled with the reason
  \<open>Cancelled by user\<close>; PATCH with \<open>pause\<close> succeeds exactly from pending and leaves it
  paused with the reason \<open>Paused by user\<close>; PATCH with \<open>resume\<close> succeeds exactly from
  paused and leaves it pending with no reason. From any other status the request is
  refused with status 400 and its own message (the handler's form of an invalid
  transition), and the whole table is as before.
\<close>

theorem control_surface_transitions:
  assumes "distinct (map ID db)" and "m \<in> set db" and "ID m \<noteq> []"
  shows "(Status m = ''pending'' \<or> Status m = ''paused'' \<longrightarrow>
            fst (handleDelete (ID m) db) = Success ''Message cancelled successfully'' \<and>
            GetScheduledMessage (snd (handleDelete (ID m) db)) (ID m)
              = Inr (m\<lparr>Status := ''cancelled'', SentAt := None,
                      ErrorMessage := Some ''Cancelled by user''\<rparr>)) \<and>
         (Status m \<noteq> ''pending'' \<and> Status m \<noteq> ''paused'' \<longrightarrow>
            handleDelete (ID m) db
              = (HttpError 400 ''Can only cancel pending or paused messages'', db)) \<and>
         (Status m = ''pending'' \<longrightarrow>
            fst (handlePatch (ID m) (Some ''pause'') db) = Success ''Message paused successfully'' \<and>
            GetScheduledMessage (snd (handlePatch (ID m) (Some ''pause'') db)) (ID m)
              = Inr (m\<lparr>Status := ''paused'', SentAt := None,
                      ErrorMessage := Some ''Paused by user''\<rparr>)) \<and>
         (Status m \<noteq> ''pending'' \<longrightarrow>
            handlePatch (ID m) (Some ''pause'') db
              = (HttpError 400 ''Can only pause pending messages'', db)) \<and>
         (Status m = ''paused'' \<longrightarrow>
            fst (handlePatch (ID m) (Some ''resume'') db) = Success ''Message resumed successfully'' \<and>
            GetScheduledMessage (snd (handlePatch (ID m) (Some ''resume'') db)) (ID m)
              = Inr (m\<lparr>Status := ''pending'', SentAt := None, ErrorMessage := None\<rparr>)) \<and>
         (Status m \<noteq> ''paused'' \<longrightarrow>
            handlePatch (ID m) (Some ''resume'') db
              = (HttpError 400 ''Can only resume paused messages'', db))"
proof -
  have g: "GetScheduledMessage db (ID m) = Inr m"
    using assms by (simp add: GetScheduledMessage_mem)
  show ?thesis
    using assms(3) g
    by (simp add: handleDelete_def handlePatch_def GetScheduledMessage_Update setStatus_def)
qed

theorem control_surface_transitions_witness:
  "handleDelete ''a'' [msgA, msgB]
     = (Success ''Message cancelled successfully'',
        [msgA\<lparr>Status := ''cancelled'', SentAt := None, ErrorMessage := Some ''Cancelled by user''\<rparr>, msgB]) \<and>
   handlePatch ''a'' (Some ''resume'') [msgA, msgB]
     = (HttpError 400 ''Can only resume paused messages'', [msgA, msgB]) \<and>
   GetScheduledMessage (snd (handlePatch ''a'' (Some ''pause'') [msgA, msgB])) ''a''
     = Inr (msgA\<lparr>Status := ''paused'', SentAt := None, ErrorMessage := Some ''Paused by user''\<rparr>)"
proof -
  have d: "distinct (map ID [msgA, msgB])" and i: "msgA \<in> set [msgA, msgB]" and n: "ID msgA \<noteq> []"
    by (simp_all add: msgA_def msgB_def)
  have s: "Status msgA = ''pending''" and a: "ID msgA = ''a''"
    by (simp_all add: msgA_def)
  have del: "handleDelete ''a'' [msgA, msgB]
     = (Success ''Message cancelled successfully'',
        [msgA\<lparr>Status := ''cancelled'', SentAt := None, ErrorMessage := Some ''Cancelled by user''\<rparr>, msgB])"
    by (simp add: handleDelete_def GetScheduledMessage_def UpdateMessageStatus_def msgA_def msgB_def)
  show ?thesis
    using control_surface_transitions [OF d i n] s a del by simp
qed

section \<open>The field invariant\<close>

lemma item_inv_setStatus: "valid_fields s sa em \<Longrightarrow> item_inv (setStatus s sa em m)"
  by (simp add: valid_fields_def item_inv_def setStatus_def)

lemma inv_Update:
  "list_all item_inv db \<Longrightarrow> valid_fields s sa em \<Longrightarrow>
   list_all item_inv (UpdateMessageStatus i s sa em db)"
  by (auto simp: list_all_iff UpdateMessageStatus_map item_inv_setStatus)

lemma inv_pauseLoop:
  "list_all item_inv db \<Longrightarrow> list_all item_inv (pauseLoop wdb msgs db)"
proof (induction msgs arbitrary: db)
  case Nil
  then show ?case by simp
next
  case (Cons msg rest)
  have "list_all item_inv (UpdateMessageStatus (ID msg) ''paused'' None (Some pausedReason) db)"
    using Cons.prems by (rule inv_Update) (simp add: valid_fields_def item_inv_def)
  with Cons show ?case
    by (simp split: sum.splits)
qed

lemma inv_processSingleMessage:
  assumes "list_all item_inv (store w)"
  shows "list_all item_inv (store (snd (processSingleMessage wdb snd_f t msg w)))"
proof -
  have 1: "list_all item_inv (UpdateMessageStatus (ID msg) ''failed'' None (Some e) (store w))" for e
    using assms by (rule inv_Update) (simp add: valid_fields_def item_inv_def)
  have 2: "list_all item_inv (UpdateMessageStatus (ID msg) ''paused'' None (Some pausedReason) (store w))"
    using assms by (rule inv_Update) (simp add: valid_fields_def item_inv_def)
  have 3: "list_all item_inv (UpdateMessageStatus (ID msg) ''sent'' (Some t) None (store w))"
    using assms by (rule inv_Update) (simp add: valid_fields_def item_inv_def)
  show ?thesis
    using 1 2 3 by (simp add: processSingleMessage_def Let_def split: sum.splits prod.splits)
qed

lemma inv_processLoop:
  "list_all item_inv (store w) \<Longrightarrow>
   list_all item_inv (store (processLoop wdb snd_f clock msgs w))"
  by (induction msgs arbitrary: w) (simp_all add: inv_processSingleMessage)

lemma inv_tick:
  "list_all item_inv (store w) \<Longrightarrow>
   list_all item_inv (store (processScheduledMessages wdb1 wdb2 snd_f clock now w))"
  by (simp add: processScheduledMessages_def Let_def checkAndPauseFutureMessages_def
      inv_processLoop inv_pauseLoop)

lemma inv_ScheduleMessage:
  "list_all item_inv db \<Longrightarrow>
   list_all item_inv (snd (ScheduleMessage g now1 now2 newID r msg t c db))"
  by (simp add: ScheduleMessage_def InsertScheduledMessage_def Let_def item_inv_def)

lemma inv_handleDelete:
  "list_all item_inv db \<Longrightarrow> list_all item_inv (snd (handleDelete i db))"
  by (simp add: handleDelete_def inv_Update valid_fields_def item_inv_def split: sum.splits)

lemma inv_handlePatch:
  "list_all item_inv db \<Longrightarrow> list_all item_inv (snd (handlePatch i body db))"
  by (simp add: handlePatch_def inv_Update valid_fields_def item_inv_def
      split: sum.splits option.splits)

text \<open>
  C8: the field invariant (a sent item has a sent timestamp and no reason; a failed,
  paused or cancelled item has a reason and no sent timestamp) holds of every row after
  scheduling, after the sweep, after the handling of one due message, after a whole
  tick, and after a DELETE or PATCH request, when it held of every row before.
\<close>

theorem field_invariant_preserved:
  assumes "list_all item_inv (store w)"
  shows "list_all item_inv (snd (ScheduleMessage g now1 now2 newID r body t c (store w))) \<and>
         list_all item_inv (checkAndPauseFutureMessages wdb1 now (store w)) \<and>
         list_all item_inv (store (snd (processSingleMessage wdb2 snd_f sentNow msg w))) \<and>
         list_all item_inv (store (processScheduledMessages wdb1 wdb2 snd_f clock now w)) \<and>
         list_all item_inv (snd (handleDelete i (store w))) \<and>
         list_all item_inv (snd (handlePatch i action (store w)))"
  using assms
  by (simp add: inv_ScheduleMessage inv_pauseLoop checkAndPauseFutureMessages_def
      inv_processSingleMessage inv_tick inv_handleDelete inv_handlePatch)

theorem field_invariant_preserved_witness:
  "list_all item_inv (store world0) \<and>
   store (processScheduledMessages wdbSilent wdbSilent sendOK clock12 (utc 10) world0)
     = [msgA\<lparr>Status := ''sent'', SentAt := Some (utc 12)\<rparr>, msgB\<lparr>Status := ''sent'', SentAt := Some (utc 12)\<rparr>] \<and>
   list_all item_inv (store (processScheduledMessages wdbSilent wdbSilent sendOK clock12 (utc 10) world0))"
proof -
  have h: "list_all item_inv (store world0)"
    by (simp add: world0_def msgA_def msgB_def item_inv_def)
  have e: "store (processScheduledMessages wdbSilent wdbSilent sendOK clock12 (utc 10) world0)
     = [msgA\<lparr>Status := ''sent'', SentAt := Some (utc 12)\<rparr>, msgB\<lparr>Status := ''sent'', SentAt := Some (utc 12)\<rparr>]"
    by (simp add: processScheduledMessages_def checkAndPauseFutureMessages_def
        GetAllScheduledMessages_def GetPendingMessages_def world0_def msgA_def msgB_def
        utc_texts
        hasRecipientResponded_def wdbSilent_def sendOK_def clock12_def
        processSingleMessage_def UpdateMessageStatus_def Let_def)
  show ?thesis
    using h e field_invariant_preserved [OF h, of "\<lambda>j. Inr zeroTime" "utc 0" "utc 0" "''z''" "''1''" "''x''" "utc 0" False
        wdbSilent "utc 10" wdbSilent sendOK "utc 12" msgA clock12 "''a''" None]
    by simp
qed

section \<open>Scheduling\<close>

text \<open>A scheduled time before the current time is refused and the table is as before.\<close>

lemma ScheduleMessage_rejects_past:
  "Before scheduledTime now1 \<Longrightarrow>
   ScheduleMessage g now1 now2 newID r body scheduledTime c db
     = (Inl ''scheduled time must be in the future'', db)"
  by (simp add: ScheduleMessage_def)

text \<open>
  The primary key: every operation of the engine and of the control surface keeps the
  identifiers of the table pairwise different.
\<close>

lemma distinct_ScheduleMessage:
  "distinct (map ID db) \<Longrightarrow>
   distinct (map ID (snd (ScheduleMessage g now1 now2 newID r body t c db)))"
  by (simp add: ScheduleMessage_def InsertScheduledMessage_def Let_def)

lemma distinct_handlers:
  "distinct (map ID db) \<Longrightarrow>
   distinct (map ID (snd (handleDelete i db))) \<and> distinct (map ID (snd (handlePatch i body db)))"
  by (simp add: handleDelete_def handlePatch_def split: sum.splits option.splits)

text \<open>
  C4: a request whose scheduled time equals the current time is accepted: the test is
  \<open>scheduledTime.Before(time.Now())\<close>, which is false at equality, so the item is
  stored as pending, although the code's own comment and error text ask for a time in
  the future.
\<close>

theorem ScheduleMessage_accepts_now:
  "ScheduleMessage (\<lambda>jid. Inr zeroTime) (utc 100) (utc 100) ''id-1'' ''5551234'' ''hello'' (utc 100) False []
     = (Inr \<lparr>ID = ''id-1'', Recipient = ''5551234@s.whatsapp.net'', Message = ''hello'',
             ScheduledTime = utc 100, CreatedAt = utc 100, LastMessageAt = zeroTime,
             CheckForResponse = False, Status = ''pending'', SentAt = None,
             ErrorMessage = None\<rparr>,
        [\<lparr>ID = ''id-1'', Recipient = ''5551234@s.whatsapp.net'', Message = ''hello'',
          ScheduledTime = utc 100, CreatedAt = utc 100, LastMessageAt = zeroTime,
          CheckForResponse = False, Status = ''pending'', SentAt = None,
          ErrorMessage = None\<rparr>])"
  by (simp add: ScheduleMessage_def InsertScheduledMessage_def normalizeJID_spec Let_def
      Before_def)

section \<open>The two phases of a tick, row by row\<close>

lemma same_ID_same_row:
  "distinct (map ID db) \<Longrightarrow> x \<in> set db \<Longrightarrow> m \<in> set db \<Longrightarrow> ID x = ID m \<Longrightarrow> x = m"
  by (meson distinct_map inj_onD)

lemma map_ID_pauseLoop [simp]: "map ID (pauseLoop wdb msgs db) = map ID db"
  by (induction msgs arbitrary: db) (simp_all split: sum.splits)

lemma setStatus_twice [simp]:
  "setStatus s sa em (setStatus s' sa' em' m) = setStatus s sa em m"
  by (simp add: setStatus_def)

lemma row_pauseLoop:
  "row (pauseLoop wdb msgs db) j =
     (if \<exists>x \<in> set msgs. ID x = j \<and> should_pause wdb x
      then map_option (setStatus ''paused'' None (Some pausedReason)) (row db j)
      else row db j)"
proof (induction msgs arbitrary: db)
  case Nil
  then show ?case by simp
next
  case (Cons msg rest)
  show ?case
  proof (cases "should_pause wdb msg")
    case True
    then have "pauseLoop wdb (msg # rest) db =
        pauseLoop wdb rest (UpdateMessageStatus (ID msg) ''paused'' None (Some pausedReason) db)"
      by (simp add: should_pause_def)
    then show ?thesis
      using True by (auto simp: Cons.IH row_Update option.map_comp comp_def)
  next
    case False
    then have "pauseLoop wdb (msg # rest) db = pauseLoop wdb rest db"
      by (auto simp: should_pause_def split: sum.splits)
    then show ?thesis
      using False by (auto simp: Cons.IH)
  qed
qed

lemma set_GetAll_pending:
  "set (GetAllScheduledMessages db ''pending'' []) = {x \<in> set db. Status x = ''pending''}"
  by (auto simp: GetAllScheduledMessages_def)

lemma row_sweep:
  assumes "distinct (map ID db)" and "m \<in> set db"
  shows "row (checkAndPauseFutureMessages wdb now db) (ID m) =
           Some (if Status m = ''pending'' \<and> should_pause wdb m
                 then setStatus ''paused'' None (Some pausedReason) m else m)"
proof -
  have "(\<exists>x \<in> set (GetAllScheduledMessages db ''pending'' []). ID x = ID m \<and> should_pause wdb x)
          \<longleftrightarrow> Status m = ''pending'' \<and> should_pause wdb m"
    using assms by (auto simp: set_GetAll_pending dest: same_ID_same_row)
  then show ?thesis
    using assms by (simp add: checkAndPauseFutureMessages_def row_pauseLoop row_mem)
qed

lemma map_ID_sweep [simp]: "map ID (checkAndPauseFutureMessages wdb now db) = map ID db"
  by (simp add: checkAndPauseFutureMessages_def)

lemma psm_check_failed:
  "CheckForResponse x \<Longrightarrow> hasRecipientResponded wdb (Recipient x) (CreatedAt x) = Inl err \<Longrightarrow>
   processSingleMessage wdb sender t x w =
     (Some err, w\<lparr>store := UpdateMessageStatus (ID x) ''failed'' None
                    (Some (''Error checking recipient response: '' @ err)) (store w)\<rparr>)"
  by (simp add: processSingleMessage_def)

lemma psm_responded:
  "CheckForResponse x \<Longrightarrow> hasRecipientResponded wdb (Recipient x) (CreatedAt x) = Inr True \<Longrightarrow>
   processSingleMessage wdb sender t x w =
     (None, w\<lparr>store := UpdateMessageStatus (ID x) ''paused'' None (Some pausedReason) (store w)\<rparr>)"
  by (simp add: processSingleMessage_def)

lemma psm_sent:
  "CheckForResponse x \<longrightarrow> hasRecipientResponded wdb (Recipient x) (CreatedAt x) = Inr False \<Longrightarrow>
   sender (Recipient x) (Message x) = (True, e) \<Longrightarrow>
   processSingleMessage wdb sender t x w =
     (None, \<lparr>store = UpdateMessageStatus (ID x) ''sent'' (Some t) None (store w),
             sends = sends w @ [(ID x, Recipient x, Message x)]\<rparr>)"
  by (cases "CheckForResponse x") (simp_all add: processSingleMessage_def)

lemma psm_send_failed:
  "CheckForResponse x \<longrightarrow> hasRecipientResponded wdb (Recipient x) (CreatedAt x) = Inr False \<Longrightarrow>
   sender (Recipient x) (Message x) = (False, e) \<Longrightarrow>
   processSingleMessage wdb sender t x w =
     (Some (''failed to send message: '' @ e),
      \<lparr>store = UpdateMessageStatus (ID x) ''failed'' None (Some e) (store w),
       sends = sends w @ [(ID x, Recipient x, Message x)]\<rparr>)"
  by (cases "CheckForResponse x") (simp_all add: processSingleMessage_def)

lemma psm_cases [case_names check_failed responded sent send_failed]:
  obtains err where "CheckForResponse x" and "hasRecipientResponded wdb (Recipient x) (CreatedAt x) = Inl err"
  | "CheckForResponse x" and "hasRecipientResponded wdb (Recipient x) (CreatedAt x) = Inr True"
  | e where "CheckForResponse x \<longrightarrow> hasRecipientResponded wdb (Recipient x) (CreatedAt x) = Inr False"
      and "sender (Recipient x) (Message x) = (True, e)"
  | e where "CheckForResponse x \<longrightarrow> hasRecipientResponded wdb (Recipient x) (CreatedAt x) = Inr False"
      and "sender (Recipient x) (Message x) = (False, e)"
proof (cases "CheckForResponse x \<longrightarrow> hasRecipientResponded wdb (Recipient x) (CreatedAt x) = Inr False")
  case True
  then show ?thesis
    using that(3,4) by (cases "sender (Recipient x) (Message x)") auto
next
  case False
  then show ?thesis
    using that(1,2) by (cases "hasRecipientResponded wdb (Recipient x) (CreatedAt x)") auto
qed

lemma row_psm_other:
  "j \<noteq> ID x \<Longrightarrow> row (store (snd (processSingleMessage wdb sender t x w))) j = row (store w) j"
  by (cases rule: psm_cases [where x = x and wdb = wdb and sender = sender])
     (simp_all add: psm_check_failed psm_responded psm_sent psm_send_failed row_Update)

lemma calls_psm_other:
  "j \<noteq> ID x \<Longrightarrow>
   calls_for j (sends (snd (processSingleMessage wdb sender t x w))) = calls_for j (sends w)"
  by (cases rule: psm_cases [where x = x and wdb = wdb and sender = sender])
     (simp_all add: psm_check_failed psm_responded psm_sent psm_send_failed calls_for_def)

lemma row_psm_local:
  "row (store w) (ID x) = row (store v) (ID x) \<Longrightarrow>
   row (store (snd (processSingleMessage wdb sender t x w))) (ID x)
     = row (store (snd (processSingleMessage wdb sender t x v))) (ID x)"
  by (cases rule: psm_cases [where x = x and wdb = wdb and sender = sender])
     (simp_all add: psm_check_failed psm_responded psm_sent psm_send_failed row_Update)

lemma calls_psm_local:
  "calls_for (ID x) (sends w) = calls_for (ID x) (sends v) \<Longrightarrow>
   calls_for (ID x) (sends (snd (processSingleMessage wdb sender t x w)))
     = calls_for (ID x) (sends (snd (processSingleMessage wdb sender t x v)))"
  by (cases rule: psm_cases [where x = x and wdb = wdb and sender = sender])
     (simp_all add: psm_check_failed psm_responded psm_sent psm_send_failed calls_for_def)

lemma processLoop_other:
  "j \<notin> ID ` set msgs \<Longrightarrow>
   row (store (processLoop wdb sender clock msgs w)) j = row (store w) j \<and>
   calls_for j (sends (processLoop wdb sender clock msgs w)) = calls_for j (sends w)"
  by (induction msgs arbitrary: w) (auto simp: row_psm_other calls_psm_other)

lemma processLoop_at:
  "distinct (map ID msgs) \<Longrightarrow> x \<in> set msgs \<Longrightarrow>
   row (store (processLoop wdb sender clock msgs w)) (ID x)
     = row (store (snd (processSingleMessage wdb sender (clock (ID x)) x w))) (ID x) \<and>
   calls_for (ID x) (sends (processLoop wdb sender clock msgs w))
     = calls_for (ID x) (sends (snd (processSingleMessage wdb sender (clock (ID x)) x w)))"
proof (induction msgs arbitrary: w)
  case Nil
  then show ?case by simp
next
  case (Cons y rest)
  let ?w1 = "snd (processSingleMessage wdb sender (clock (ID y)) y w)"
  show ?case
  proof (cases "x = y")
    case True
    have "ID x \<notin> ID ` set rest" using Cons.prems(1) True by auto
    then show ?thesis
      using processLoop_other [of "ID x" rest wdb sender clock ?w1] True by simp
  next
    case False
    then have xr: "x \<in> set rest" using Cons.prems(2) by simp
    have "ID y \<notin> ID ` set rest" using Cons.prems(1) by simp
    with xr have ne: "ID x \<noteq> ID y" by (metis imageI)
    have d: "distinct (map ID rest)" using Cons.prems(1) by simp
    have r: "row (store ?w1) (ID x) = row (store w) (ID x)"
      using ne by (simp add: row_psm_other)
    have c: "calls_for (ID x) (sends ?w1) = calls_for (ID x) (sends w)"
      using ne by (simp add: calls_psm_other)
    show ?thesis
      using Cons.IH [OF d xr, of ?w1] row_psm_local [OF r] calls_psm_local [OF c] by simp
  qed
qed

lemma distinct_ID_due:
  "distinct (map ID db) \<Longrightarrow> distinct (map ID (GetPendingMessages db now))"
  by (auto simp: GetPendingMessages_def distinct_map intro: inj_on_subset)

lemma set_due:
  "set (GetPendingMessages db now) = {m \<in> set db. Status m = ''pending'' \<and> sqliteTimestamp (ScheduledTime m) \<le> sqliteTimestamp now}"
  by (auto simp: GetPendingMessages_def)

lemma tick_unfold:
  "processScheduledMessages wdb1 wdb2 sender clock now w =
     processLoop wdb2 sender clock
       (GetPendingMessages (checkAndPauseFutureMessages wdb1 now (store w)) now)
       (w\<lparr>store := checkAndPauseFutureMessages wdb1 now (store w)\<rparr>)"
  by (simp add: processScheduledMessages_def Let_def)

text \<open>
  A row that the due query does not select after the sweep is left alone by the delivery;
  a row that it selects is handled once.
\<close>

lemma delivery_skips:
  assumes "distinct (map ID db)" and "m \<in> set db"
    and "\<not> (Status m = ''pending'' \<and> sqliteTimestamp (ScheduledTime m) \<le> sqliteTimestamp now)"
  shows "row (store (processLoop wdb sender clock (GetPendingMessages db now) \<lparr>store = db, sends = tr\<rparr>)) (ID m)
           = Some m \<and>
         calls_for (ID m) (sends (processLoop wdb sender clock (GetPendingMessages db now) \<lparr>store = db, sends = tr\<rparr>))
           = calls_for (ID m) tr"
proof -
  have "ID m \<notin> ID ` set (GetPendingMessages db now)"
  proof
    assume "ID m \<in> ID ` set (GetPendingMessages db now)"
    then obtain x where x: "x \<in> set db" "Status x = ''pending''" "sqliteTimestamp (ScheduledTime x) \<le> sqliteTimestamp now" "ID x = ID m"
      by (auto simp: set_due)
    then have "x = m" using assms(1,2) by (auto dest: same_ID_same_row)
    with x assms(3) show False by simp
  qed
  then show ?thesis
    using processLoop_other [of "ID m" "GetPendingMessages db now" wdb sender clock "\<lparr>store = db, sends = tr\<rparr>"]
      assms by (simp add: row_mem)
qed

lemma delivery_handles:
  assumes "distinct (map ID db)" and "m \<in> set db"
    and "Status m = ''pending''" and "sqliteTimestamp (ScheduledTime m) \<le> sqliteTimestamp now"
  shows "row (store (processLoop wdb sender clock (GetPendingMessages db now) \<lparr>store = db, sends = tr\<rparr>)) (ID m)
           = row (store (snd (processSingleMessage wdb sender (clock (ID m)) m \<lparr>store = db, sends = tr\<rparr>))) (ID m) \<and>
         calls_for (ID m) (sends (processLoop wdb sender clock (GetPendingMessages db now) \<lparr>store = db, sends = tr\<rparr>))
           = calls_for (ID m) (sends (snd (processSingleMessage wdb sender (clock (ID m)) m \<lparr>store = db, sends = tr\<rparr>)))"
proof -
  have "m \<in> set (GetPendingMessages db now)" using assms by (simp add: set_due)
  then show ?thesis
    using processLoop_at [OF distinct_ID_due [OF assms(1)]] by blast
qed

section \<open>One tick, row by row\<close>

lemma world_store_update: "w\<lparr>store := db\<rparr> = \<lparr>store = db, sends = sends w\<rparr>"
  by (cases w) simp

lemma world_eta: "\<lparr>store = store w, sends = sends w\<rparr> = w"
  by (cases w) simp

lemma map_ID_psm [simp]:
  "map ID (store (snd (processSingleMessage wdb sender t x w))) = map ID (store w)"
  by (cases rule: psm_cases [where x = x and wdb = wdb and sender = sender])
     (simp_all add: psm_check_failed psm_responded psm_sent psm_send_failed)

lemma map_ID_processLoop [simp]:
  "map ID (store (processLoop wdb sender clock msgs w)) = map ID (store w)"
  by (induction msgs arbitrary: w) simp_all

lemma map_ID_tick [simp]:
  "map ID (store (processScheduledMessages wdb1 wdb2 sender clock now w)) = map ID (store w)"
  by (simp add: tick_unfold)

lemma sweep_row_mem:
  assumes "distinct (map ID db)" and "m \<in> set db"
  shows "(if Status m = ''pending'' \<and> should_pause wdb m
          then setStatus ''paused'' None (Some pausedReason) m else m)
           \<in> set (checkAndPauseFutureMessages wdb now db)"
  using row_sweep [OF assms, of wdb now] row_SomeD by blast

lemma tick_row_paused_in_sweep:
  assumes "distinct (map ID (store w))" and "m \<in> set (store w)"
    and "Status m = ''pending''" and "should_pause wdb1 m"
  shows "row (store (processScheduledMessages wdb1 wdb2 sender clock now w)) (ID m)
           = Some (setStatus ''paused'' None (Some pausedReason) m) \<and>
         calls_for (ID m) (sends (processScheduledMessages wdb1 wdb2 sender clock now w))
           = calls_for (ID m) (sends w)"
proof -
  let ?db1 = "checkAndPauseFutureMessages wdb1 now (store w)"
  let ?m1 = "setStatus ''paused'' None (Some pausedReason) m"
  have d1: "distinct (map ID ?db1)" using assms(1) by simp
  have m1: "?m1 \<in> set ?db1"
    using sweep_row_mem [OF assms(1,2), of wdb1 now] assms(3,4) by simp
  have np: "\<not> (Status ?m1 = ''pending'' \<and> sqliteTimestamp (ScheduledTime ?m1) \<le> sqliteTimestamp now)"
    by (simp add: setStatus_def)
  show ?thesis
    using delivery_skips [OF d1 m1 np, of wdb2 sender clock "sends w"]
    by (simp add: tick_unfold world_store_update)
qed

lemma tick_row_untouched:
  assumes "distinct (map ID (store w))" and "m \<in> set (store w)"
    and "\<not> (Status m = ''pending'' \<and> should_pause wdb1 m)"
    and "\<not> (Status m = ''pending'' \<and> sqliteTimestamp (ScheduledTime m) \<le> sqliteTimestamp now)"
  shows "row (store (processScheduledMessages wdb1 wdb2 sender clock now w)) (ID m) = Some m \<and>
         calls_for (ID m) (sends (processScheduledMessages wdb1 wdb2 sender clock now w))
           = calls_for (ID m) (sends w)"
proof -
  let ?db1 = "checkAndPauseFutureMessages wdb1 now (store w)"
  have d1: "distinct (map ID ?db1)" using assms(1) by simp
  have m1: "m \<in> set ?db1"
    using sweep_row_mem [OF assms(1,2), of wdb1 now] assms(3) by simp
  show ?thesis
    using delivery_skips [OF d1 m1 assms(4), of wdb2 sender clock "sends w"]
    by (simp add: tick_unfold world_store_update)
qed

lemma tick_row_delivered:
  assumes "distinct (map ID (store w))" and "m \<in> set (store w)"
    and "Status m = ''pending''" and "\<not> should_pause wdb1 m" and "sqliteTimestamp (ScheduledTime m) \<le> sqliteTimestamp now"
  shows "row (store (processScheduledMessages wdb1 wdb2 sender clock now w)) (ID m)
           = row (store (snd (processSingleMessage wdb2 sender (clock (ID m)) m w))) (ID m) \<and>
         calls_for (ID m) (sends (processScheduledMessages wdb1 wdb2 sender clock now w))
           = calls_for (ID m) (sends (snd (processSingleMessage wdb2 sender (clock (ID m)) m w)))"
proof -
  let ?db1 = "checkAndPauseFutureMessages wdb1 now (store w)"
  let ?w1 = "\<lparr>store = ?db1, sends = sends w\<rparr>"
  have d1: "distinct (map ID ?db1)" using assms(1) by simp
  have m1: "m \<in> set ?db1"
    using sweep_row_mem [OF assms(1,2), of wdb1 now] assms(4) by simp
  have r: "row (store ?w1) (ID m) = row (store w) (ID m)"
    using d1 m1 assms(1,2) by (simp add: row_mem)
  have c: "calls_for (ID m) (sends ?w1) = calls_for (ID m) (sends w)"
    by simp
  show ?thesis
    using delivery_handles [OF d1 m1 assms(3,5), of wdb2 sender clock "sends w"]
      row_psm_local [OF r, of wdb2 sender "clock (ID m)"]
      calls_psm_local [OF c, of wdb2 sender "clock (ID m)"]
    by (simp add: tick_unfold world_store_update)
qed

lemma setStatus_record:
  "setStatus s sa em m = m\<lparr>Status := s, SentAt := sa, ErrorMessage := em\<rparr>"
  by (simp add: setStatus_def)

section \<open>Suppression, delivery and the failing check\<close>

text \<open>
  C2: a stored pending item with the response-check flag whose recipient is seen to have
  responded, either by the sweep (whatever its scheduled time) or, when the due query
  selects it (the text of its scheduled time is at most the text of \<open>now\<close>), by the
  re-check at delivery, is paused by the tick with the reason
  \<open>Recipient responded before scheduled time\<close>, and the tick makes no call to the sender
  for it.
\<close>

theorem tick_pauses_responded:
  assumes "distinct (map ID (store w))" and "m \<in> set (store w)"
    and "Status m = ''pending''" and "CheckForResponse m"
    and "hasRecipientResponded wdb1 (Recipient m) (CreatedAt m) = Inr True \<or>
         (sqliteTimestamp (ScheduledTime m) \<le> sqliteTimestamp now \<and>
          hasRecipientResponded wdb2 (Recipient m) (CreatedAt m) = Inr True)"
  shows "GetScheduledMessage (store (processScheduledMessages wdb1 wdb2 sender clock now w)) (ID m)
           = Inr (m\<lparr>Status := ''paused'', SentAt := None,
                   ErrorMessage := Some ''Recipient responded before scheduled time''\<rparr>) \<and>
         calls_for (ID m) (sends (processScheduledMessages wdb1 wdb2 sender clock now w))
           = calls_for (ID m) (sends w)"
proof (cases "should_pause wdb1 m")
  case True
  then show ?thesis
    using tick_row_paused_in_sweep [OF assms(1-3) True, of wdb2 sender clock now]
    by (simp add: GetScheduledMessage_row setStatus_record pausedReason_def)
next
  case False
  then have due: "sqliteTimestamp (ScheduledTime m) \<le> sqliteTimestamp now"
    and r2: "hasRecipientResponded wdb2 (Recipient m) (CreatedAt m) = Inr True"
    using assms(4,5) by (auto simp: should_pause_def)
  have "row (store w) (ID m) = Some m" using assms(1,2) by (rule row_mem)
  then show ?thesis
    using tick_row_delivered [OF assms(1-3) False due, of wdb2 sender clock]
    by (simp add: psm_responded [OF assms(4) r2] row_Update GetScheduledMessage_row
        setStatus_record pausedReason_def)
qed

lemma world0_facts:
  "distinct (map ID (store world0))" "msgA \<in> set (store world0)" "msgB \<in> set (store world0)"
  "Status msgA = ''pending''" "CheckForResponse msgA" "ID msgA = ''a''" "sends world0 = []"
  "Status msgB = ''pending''" "\<not> CheckForResponse msgB" "ID msgB = ''b''"
  "sqliteTimestamp (ScheduledTime msgA) \<le> sqliteTimestamp (utc 10)" "sqliteTimestamp (ScheduledTime msgB) \<le> sqliteTimestamp (utc 10)"
  by (simp_all add: world0_def msgA_def msgB_def utc_texts)

theorem tick_pauses_responded_witness:
  "GetScheduledMessage (store (processScheduledMessages wdbResponded wdbSilent sendOK clock12 (utc 3) world0)) ''a''
     = Inr (msgA\<lparr>Status := ''paused'', SentAt := None,
                 ErrorMessage := Some ''Recipient responded before scheduled time''\<rparr>) \<and>
   calls_for ''a'' (sends (processScheduledMessages wdbResponded wdbSilent sendOK clock12 (utc 3) world0)) = []"
proof -
  have r: "hasRecipientResponded wdbResponded (Recipient msgA) (CreatedAt msgA) = Inr True \<or>
           (sqliteTimestamp (ScheduledTime msgA) \<le> sqliteTimestamp (utc 3) \<and>
            hasRecipientResponded wdbSilent (Recipient msgA) (CreatedAt msgA) = Inr True)"
    by (simp add: hasRecipientResponded_def wdbResponded_def)
  show ?thesis
    using tick_pauses_responded [OF world0_facts(1,2,4,5) r, of sendOK clock12]
    by (simp add: world0_facts calls_for_def)
qed

text \<open>
  What the tick does with a stored pending item that the due query selects (the text of
  its scheduled time is at most the text of \<open>now\<close>) and that is delivered (its flag is
  off, or the sweep did not see a response and the re-check at delivery answers no): it
  gets exactly one more call to the sender. When the sender reports success the item is
  sent, with the clock reading taken after the send as sent time and with no reason;
  when it reports failure the item is failed with the sender's error text as reason and
  no sent time. A later tick, whatever its collaborators and time, leaves the item as it
  is and makes no further call for it.
\<close>

lemma tick_delivers_selected_once:
  assumes "distinct (map ID (store w))" and "m \<in> set (store w)"
    and "Status m = ''pending''"
    and "sqliteTimestamp (ScheduledTime m) \<le> sqliteTimestamp now"
    and "CheckForResponse m \<longrightarrow>
           hasRecipientResponded wdb1 (Recipient m) (CreatedAt m) \<noteq> Inr True \<and>
           hasRecipientResponded wdb2 (Recipient m) (CreatedAt m) = Inr False"
    and "w1 = processScheduledMessages wdb1 wdb2 sender clock now w"
    and "w2 = processScheduledMessages wdb1' wdb2' sender' clock' now' w1"
  shows "calls_for (ID m) (sends w1) = calls_for (ID m) (sends w) @ [(ID m, Recipient m, Message m)] \<and>
         (fst (sender (Recipient m) (Message m)) \<longrightarrow>
            GetScheduledMessage (store w1) (ID m)
              = Inr (m\<lparr>Status := ''sent'', SentAt := Some (clock (ID m)), ErrorMessage := None\<rparr>)) \<and>
         (\<not> fst (sender (Recipient m) (Message m)) \<longrightarrow>
            GetScheduledMessage (store w1) (ID m)
              = Inr (m\<lparr>Status := ''failed'', SentAt := None,
                      ErrorMessage := Some (snd (sender (Recipient m) (Message m)))\<rparr>)) \<and>
         GetScheduledMessage (store w2) (ID m) = GetScheduledMessage (store w1) (ID m) \<and>
         calls_for (ID m) (sends w2) = calls_for (ID m) (sends w1)"
proof -
  have ns: "\<not> should_pause wdb1 m"
    using assms(5) by (auto simp: should_pause_def)
  have nr: "CheckForResponse m \<longrightarrow> hasRecipientResponded wdb2 (Recipient m) (CreatedAt m) = Inr False"
    using assms(5) by simp
  have r0: "row (store w) (ID m) = Some m" using assms(1,2) by (rule row_mem)
  obtain ok e where se: "sender (Recipient m) (Message m) = (ok, e)"
    by (cases "sender (Recipient m) (Message m)")
  let ?m1 = "if ok then setStatus ''sent'' (Some (clock (ID m))) None m
             else setStatus ''failed'' None (Some e) m"
  have first: "row (store w1) (ID m) = Some ?m1 \<and>
      calls_for (ID m) (sends w1) = calls_for (ID m) (sends w) @ [(ID m, Recipient m, Message m)]"
  proof (cases ok)
    case True
    with se have s: "sender (Recipient m) (Message m) = (True, e)" by simp
    show ?thesis
      using tick_row_delivered [OF assms(1-3) ns assms(4), of wdb2 sender clock] r0 True
      by (simp add: assms(6) psm_sent [where sender = sender and x = m, OF nr s] row_Update calls_for_def)
  next
    case False
    with se have s: "sender (Recipient m) (Message m) = (False, e)" by simp
    show ?thesis
      using tick_row_delivered [OF assms(1-3) ns assms(4), of wdb2 sender clock] r0 False
      by (simp add: assms(6) psm_send_failed [where sender = sender and x = m, OF nr s] row_Update calls_for_def)
  qed
  have d1: "distinct (map ID (store w1))" using assms(1) by (simp add: assms(6))
  have m1: "?m1 \<in> set (store w1)" using first row_SomeD by blast
  have id1: "ID ?m1 = ID m" by simp
  have np: "\<not> (Status ?m1 = ''pending'' \<and> should_pause wdb1' ?m1)"
    "\<not> (Status ?m1 = ''pending'' \<and>
        sqliteTimestamp (ScheduledTime ?m1) \<le> sqliteTimestamp now')"
    by (simp_all add: setStatus_def)
  have second: "row (store w2) (ID m) = Some ?m1 \<and>
      calls_for (ID m) (sends w2) = calls_for (ID m) (sends w1)"
    using tick_row_untouched [OF d1 m1 np, of wdb2' sender' clock'] id1
    by (simp only: assms(7))
  show ?thesis
    using first second se
    by (simp add: GetScheduledMessage_row setStatus_record)
qed

text \<open>
  C3: a due pending item with the response check off is not always delivered. At
  11:00:00 UTC the item scheduled for 12:00:00+02:00 is an hour overdue, yet the tick
  makes no call to the sender and leaves the item pending: the due query, which
  compares the time texts, does not return it.
\<close>

theorem tick_skips_due_item:
  "Status lateItem = ''pending'' \<and> \<not> CheckForResponse lateItem \<and>
   Before (ScheduledTime lateItem) elevenUTC \<and>
   processScheduledMessages wdbSilent wdbSilent sendOK clock12 elevenUTC
       \<lparr>store = [lateItem], sends = []\<rparr>
     = \<lparr>store = [lateItem], sends = []\<rparr>"
proof -
  have "GetAllScheduledMessages [lateItem] ''pending'' [] = [lateItem]"
    by (simp add: GetAllScheduledMessages_def lateItem_def)
  then have "checkAndPauseFutureMessages wdbSilent elevenUTC [lateItem] = [lateItem]"
    by (simp add: checkAndPauseFutureMessages_def lateItem_def)
  moreover have "GetPendingMessages [lateItem] elevenUTC = []"
    by (simp add: GetPendingMessages_def sqliteTimestamp_examples)
  ultimately show ?thesis
    by (simp add: processScheduledMessages_def)
       (simp add: lateItem_def elevenUTC_def utc_def Before_def)
qed

text \<open>
  C5: when the response query fails for a stored pending item with the flag set, the
  sweep leaves the item exactly as it was, while the handling of the due item marks it
  failed, returns the error and stores the check's error message as reason: the reason
  is the fixed words \<open>Error checking recipient response: \<close> and then the message, so
  the message is its ending. In a whole tick in which the
  query fails the item is therefore failed when the due query selects it (the text of
  its scheduled time is at most the text of \<open>now\<close>) and unchanged when it does not.
\<close>

theorem failing_check_asymmetric:
  assumes "distinct (map ID (store w))" and "m \<in> set (store w)"
    and "Status m = ''pending''" and "CheckForResponse m"
    and "hasRecipientResponded wdb (Recipient m) (CreatedAt m) = Inl err"
  shows "GetScheduledMessage (checkAndPauseFutureMessages wdb now (store w)) (ID m) = Inr m \<and>
         fst (processSingleMessage wdb sender t m w) = Some err \<and>
         GetScheduledMessage (store (snd (processSingleMessage wdb sender t m w))) (ID m)
           = Inr (m\<lparr>Status := ''failed'', SentAt := None,
                   ErrorMessage := Some (''Error checking recipient response: '' @ err)\<rparr>) \<and>
         suffix err (''Error checking recipient response: '' @ err) \<and>
         GetScheduledMessage (store (processScheduledMessages wdb wdb sender clock now w)) (ID m)
           = (if sqliteTimestamp (ScheduledTime m) \<le> sqliteTimestamp now
              then Inr (m\<lparr>Status := ''failed'', SentAt := None,
                         ErrorMessage := Some (''Error checking recipient response: '' @ err)\<rparr>)
              else Inr m)"
proof -
  have ns: "\<not> should_pause wdb m"
    using assms(5) by (simp add: should_pause_def)
  have r0: "row (store w) (ID m) = Some m" using assms(1,2) by (rule row_mem)
  have sweep: "GetScheduledMessage (checkAndPauseFutureMessages wdb now (store w)) (ID m) = Inr m"
    using row_sweep [OF assms(1,2), of wdb now] ns by (simp add: GetScheduledMessage_row)
  note psm = psm_check_failed [OF assms(4,5)]
  have single: "GetScheduledMessage (store (snd (processSingleMessage wdb sender t m w))) (ID m)
           = Inr (m\<lparr>Status := ''failed'', SentAt := None,
                   ErrorMessage := Some (''Error checking recipient response: '' @ err)\<rparr>)"
    using r0 by (simp add: psm row_Update GetScheduledMessage_row setStatus_record)
  have tick: "GetScheduledMessage (store (processScheduledMessages wdb wdb sender clock now w)) (ID m)
           = (if sqliteTimestamp (ScheduledTime m) \<le> sqliteTimestamp now
              then Inr (m\<lparr>Status := ''failed'', SentAt := None,
                         ErrorMessage := Some (''Error checking recipient response: '' @ err)\<rparr>)
              else Inr m)"
  proof (cases "sqliteTimestamp (ScheduledTime m) \<le> sqliteTimestamp now")
    case True
    show ?thesis
      using tick_row_delivered [OF assms(1-3) ns True, of wdb sender clock] r0 True
      by (simp add: psm row_Update GetScheduledMessage_row setStatus_record)
  next
    case False
    then have nd: "\<not> (Status m = ''pending'' \<and>
        sqliteTimestamp (ScheduledTime m) \<le> sqliteTimestamp now)" by simp
    have np: "\<not> (Status m = ''pending'' \<and> should_pause wdb m)" using ns by simp
    show ?thesis
      using tick_row_untouched [OF assms(1,2) np nd, of wdb sender clock] False
      by (simp add: GetScheduledMessage_row)
  qed
  have carries: "suffix err (''Error checking recipient response: '' @ err)"
    by (rule suffix_appendI) simp
  show ?thesis
    using sweep single tick carries by (simp add: psm)
qed

lemma wdbDown_msgA:
  "hasRecipientResponded wdbDown (Recipient msgA) (CreatedAt msgA) = Inl ''database is locked''"
  by (simp add: hasRecipientResponded_def wdbDown_def)

theorem failing_check_asymmetric_witness:
  "GetScheduledMessage (checkAndPauseFutureMessages wdbDown (utc 10) (store world0)) ''a'' = Inr msgA \<and>
   GetScheduledMessage (store (processScheduledMessages wdbDown wdbDown sendOK clock12 (utc 10) world0)) ''a''
     = Inr (msgA\<lparr>Status := ''failed'', SentAt := None,
                 ErrorMessage := Some ''Error checking recipient response: database is locked''\<rparr>)"
  using failing_check_asymmetric [OF world0_facts(1,2,4,5) wdbDown_msgA, of "utc 10" sendOK "utc 12" clock12]
  by (simp add: world0_facts)

section \<open>The state machine\<close>

lemma follows_edgesI:
  assumes "\<And>m. m \<in> set db \<Longrightarrow>
             \<exists>m'. row db' (ID m) = Some m' \<and> (Status m' = Status m \<or> edge (Status m) (Status m'))"
  shows "follows_edges db db'"
  unfolding follows_edges_def list_all_iff
proof
  fix m assume "m \<in> set db"
  then obtain m' where "row db' (ID m) = Some m'"
    and "Status m' = Status m \<or> edge (Status m) (Status m')"
    using assms by blast
  then show "case GetScheduledMessage db' (ID m) of Inl err \<Rightarrow> False
             | Inr m' \<Rightarrow> Status m' = Status m \<or> edge (Status m) (Status m')"
    by (simp add: GetScheduledMessage_row)
qed

lemma follows_refl: "distinct (map ID db) \<Longrightarrow> follows_edges db db"
  by (rule follows_edgesI) (simp add: row_mem)

lemma follows_Update:
  assumes "distinct (map ID db)"
    and "\<And>m. m \<in> set db \<Longrightarrow> ID m = i \<Longrightarrow> Status m = s \<or> edge (Status m) s"
  shows "follows_edges db (UpdateMessageStatus i s sa em db)"
proof (rule follows_edgesI)
  fix m assume m: "m \<in> set db"
  then have r: "row db (ID m) = Some m" using assms(1) by (simp add: row_mem)
  show "\<exists>m'. row (UpdateMessageStatus i s sa em db) (ID m) = Some m' \<and>
             (Status m' = Status m \<or> edge (Status m) (Status m'))"
  proof (cases "ID m = i")
    case True
    then show ?thesis
      using r assms(2) [OF m True] by (auto simp: row_Update setStatus_def)
  next
    case False
    then show ?thesis using r by (simp add: row_Update)
  qed
qed

lemma row_append:
  "row (db @ xs) j = (case row db j of None \<Rightarrow> row xs j | Some m \<Rightarrow> Some m)"
  by (induction db) (simp_all add: row_def)

lemma follows_ScheduleMessage:
  assumes "distinct (map ID db)"
  shows "follows_edges db (snd (ScheduleMessage g now1 now2 newID r body t c db))"
proof (cases "snd (ScheduleMessage g now1 now2 newID r body t c db) = db")
  case True
  then show ?thesis using assms by (simp add: follows_refl)
next
  case False
  then obtain n where "snd (ScheduleMessage g now1 now2 newID r body t c db) = db @ [n]"
    by (auto simp: ScheduleMessage_def InsertScheduledMessage_def Let_def split: if_splits)
  moreover have "follows_edges db (db @ [n])"
    by (rule follows_edgesI) (simp add: row_append row_mem assms)
  ultimately show ?thesis by simp
qed

lemma follows_sweep:
  assumes "distinct (map ID db)"
  shows "follows_edges db (checkAndPauseFutureMessages wdb now db)"
proof (rule follows_edgesI)
  fix m assume "m \<in> set db"
  then show "\<exists>m'. row (checkAndPauseFutureMessages wdb now db) (ID m) = Some m' \<and>
                  (Status m' = Status m \<or> edge (Status m) (Status m'))"
    using row_sweep [OF assms, of m wdb now] by (simp add: setStatus_def edge_def)
qed

lemma psm_row_status:
  assumes "row (store w) (ID x) = Some m"
  shows "\<exists>m'. row (store (snd (processSingleMessage wdb sender t x w))) (ID x) = Some m' \<and>
              (Status m' = ''failed'' \<or> Status m' = ''paused'' \<or> Status m' = ''sent'')"
  using assms
  by (cases rule: psm_cases [where x = x and wdb = wdb and sender = sender])
     (simp_all add: psm_check_failed psm_responded psm_sent psm_send_failed row_Update
        setStatus_def)

lemma follows_psm:
  assumes "distinct (map ID (store w))" and "x \<in> set (store w)" and "Status x = ''pending''"
  shows "follows_edges (store w) (store (snd (processSingleMessage wdb sender t x w)))"
proof (rule follows_edgesI)
  fix m assume m: "m \<in> set (store w)"
  then have r: "row (store w) (ID m) = Some m" using assms(1) by (simp add: row_mem)
  show "\<exists>m'. row (store (snd (processSingleMessage wdb sender t x w))) (ID m) = Some m' \<and>
             (Status m' = Status m \<or> edge (Status m) (Status m'))"
  proof (cases "ID m = ID x")
    case True
    then have "m = x" using assms(1,2) m by (auto dest: same_ID_same_row)
    then show ?thesis
      using psm_row_status [OF r, of wdb sender t] assms(3) by (auto simp: edge_def)
  next
    case False
    then show ?thesis using r by (simp add: row_psm_other)
  qed
qed

lemma follows_delivery:
  assumes "distinct (map ID (store w))"
  shows "follows_edges (store w)
           (store (processLoop wdb sender clock (GetPendingMessages (store w) now) w))"
proof (rule follows_edgesI)
  fix m assume m: "m \<in> set (store w)"
  then have r: "row (store w) (ID m) = Some m" using assms by (simp add: row_mem)
  let ?w' = "processLoop wdb sender clock (GetPendingMessages (store w) now) w"
  show "\<exists>m'. row (store ?w') (ID m) = Some m' \<and>
             (Status m' = Status m \<or> edge (Status m) (Status m'))"
  proof (cases "Status m = ''pending'' \<and> sqliteTimestamp (ScheduledTime m) \<le> sqliteTimestamp now")
    case True
    then have "row (store ?w') (ID m)
        = row (store (snd (processSingleMessage wdb sender (clock (ID m)) m w))) (ID m)"
      using delivery_handles [OF assms m, of now wdb sender clock "sends w"]
      by (simp add: world_eta)
    then show ?thesis
      using psm_row_status [OF r, of wdb sender "clock (ID m)"] True by (auto simp: edge_def)
  next
    case False
    then show ?thesis
      using delivery_skips [OF assms m False, of wdb sender clock "sends w"]
      by (simp add: world_eta)
  qed
qed

lemma follows_tick:
  assumes "distinct (map ID (store w))"
  shows "follows_edges (store w) (store (processScheduledMessages wdb1 wdb2 sender clock now w))"
proof (rule follows_edgesI)
  fix m assume m: "m \<in> set (store w)"
  then have r: "row (store w) (ID m) = Some m" using assms by (simp add: row_mem)
  let ?w' = "processScheduledMessages wdb1 wdb2 sender clock now w"
  consider (swept) "Status m = ''pending''" "should_pause wdb1 m"
    | (due) "Status m = ''pending''" "\<not> should_pause wdb1 m" "sqliteTimestamp (ScheduledTime m) \<le> sqliteTimestamp now"
    | (idle) "\<not> (Status m = ''pending'' \<and> should_pause wdb1 m)"
             "\<not> (Status m = ''pending'' \<and> sqliteTimestamp (ScheduledTime m) \<le> sqliteTimestamp now)"
    by blast
  then show "\<exists>m'. row (store ?w') (ID m) = Some m' \<and>
             (Status m' = Status m \<or> edge (Status m) (Status m'))"
  proof cases
    case swept
    then show ?thesis
      using tick_row_paused_in_sweep [OF assms m swept, of wdb2 sender clock now]
      by (simp add: setStatus_def edge_def)
  next
    case due
    then show ?thesis
      using tick_row_delivered [OF assms m due, of wdb2 sender clock]
        psm_row_status [OF r, of wdb2 sender "clock (ID m)"]
      by (auto simp: edge_def)
  next
    case idle
    then show ?thesis
      using tick_row_untouched [OF assms m idle, of wdb2 sender clock] by simp
  qed
qed

lemma follows_handleDelete:
  assumes "distinct (map ID db)"
  shows "follows_edges db (snd (handleDelete i db))"
proof (cases "snd (handleDelete i db) = db")
  case True
  then show ?thesis using assms by (simp add: follows_refl)
next
  case False
  then obtain x where x: "row db i = Some x" "Status x = ''pending'' \<or> Status x = ''paused''"
    and e: "snd (handleDelete i db) = UpdateMessageStatus i ''cancelled'' None (Some ''Cancelled by user'') db"
    by (auto simp: handleDelete_def GetScheduledMessage_row split: if_splits option.splits)
  have "follows_edges db (UpdateMessageStatus i ''cancelled'' None (Some ''Cancelled by user'') db)"
  proof (rule follows_Update [OF assms])
    fix m assume "m \<in> set db" "ID m = i"
    then have "m = x" using x(1) assms row_mem by fastforce
    then show "Status m = ''cancelled'' \<or> edge (Status m) ''cancelled''"
      using x(2) by (auto simp: edge_def)
  qed
  then show ?thesis by (simp add: e)
qed

lemma handlePatch_cases:
  "snd (handlePatch i body db) = db \<or>
   (\<exists>x. row db i = Some x \<and> Status x = ''pending'' \<and>
        snd (handlePatch i body db)
          = UpdateMessageStatus i ''paused'' None (Some ''Paused by user'') db) \<or>
   (\<exists>x. row db i = Some x \<and> Status x = ''paused'' \<and>
        snd (handlePatch i body db) = UpdateMessageStatus i ''pending'' None None db)"
  by (simp add: handlePatch_def GetScheduledMessage_row split: option.splits)

lemma follows_handlePatch:
  assumes "distinct (map ID db)"
  shows "follows_edges db (snd (handlePatch i body db))"
proof -
  have upd: "follows_edges db (UpdateMessageStatus i s None em db)"
    if x: "row db i = Some x" "edge (Status x) s" for x s em
  proof (rule follows_Update [OF assms])
    fix m assume "m \<in> set db" "ID m = i"
    then have "m = x" using x(1) assms row_mem by fastforce
    then show "Status m = s \<or> edge (Status m) s"
      using x(2) by simp
  qed
  from handlePatch_cases [of i body db] show ?thesis
  proof (elim disjE exE conjE)
    assume "snd (handlePatch i body db) = db"
    then show ?thesis using assms by (simp add: follows_refl)
  next
    fix x
    assume "row db i = Some x" "Status x = ''pending''"
      and e: "snd (handlePatch i body db)
                = UpdateMessageStatus i ''paused'' None (Some ''Paused by user'') db"
    then show ?thesis using upd [of x "''paused''"] by (simp add: edge_def)
  next
    fix x
    assume "row db i = Some x" "Status x = ''paused''"
      and e: "snd (handlePatch i body db) = UpdateMessageStatus i ''pending'' None None db"
    then show ?thesis using upd [of x "''pending''"] by (simp add: edge_def)
  qed
qed

text \<open>
  C1: the state machine has no edge out of sent, cancelled or failed, and on a table
  with distinct identifiers every operation keeps every stored item and either keeps
  its status or moves it along an edge: scheduling, the sweep, the handling of one
  pending message, the delivery loop over the due messages, a whole tick, and the
  DELETE and PATCH requests (cancel, pause, resume).
\<close>

theorem transitions_follow_state_machine:
  assumes "distinct (map ID (store w))"
  shows "\<not> edge ''sent'' s \<and> \<not> edge ''cancelled'' s \<and> \<not> edge ''failed'' s \<and>
         follows_edges (store w) (snd (ScheduleMessage g now1 now2 newID r body t c (store w))) \<and>
         follows_edges (store w) (checkAndPauseFutureMessages wdb1 now (store w)) \<and>
         (x \<in> set (store w) \<and> Status x = ''pending'' \<longrightarrow>
            follows_edges (store w) (store (snd (processSingleMessage wdb2 sender sentNow x w)))) \<and>
         follows_edges (store w)
           (store (processLoop wdb2 sender clock (GetPendingMessages (store w) now) w)) \<and>
         follows_edges (store w) (store (processScheduledMessages wdb1 wdb2 sender clock now w)) \<and>
         follows_edges (store w) (snd (handleDelete i (store w))) \<and>
         follows_edges (store w) (snd (handlePatch i action (store w)))"
  using assms
  by (simp add: edge_def follows_ScheduleMessage follows_sweep follows_psm follows_delivery
      follows_tick follows_handleDelete follows_handlePatch)

theorem transitions_follow_state_machine_witness:
  "follows_edges (store world0)
     (store (processScheduledMessages wdbResponded wdbSilent sendDown clock12 (utc 10) world0)) \<and>
   map Status (store (processScheduledMessages wdbResponded wdbSilent sendDown clock12 (utc 10) world0))
     = [''paused'', ''failed''] \<and>
   follows_edges (store world0) (snd (handlePatch ''a'' (Some ''pause'') (store world0)))"
proof -
  have s: "map Status (store (processScheduledMessages wdbResponded wdbSilent sendDown clock12 (utc 10) world0))
     = [''paused'', ''failed'']"
    by (simp add: processScheduledMessages_def checkAndPauseFutureMessages_def
        GetAllScheduledMessages_def GetPendingMessages_def world0_def msgA_def msgB_def
        utc_texts
        hasRecipientResponded_def wdbResponded_def wdbSilent_def sendDown_def clock12_def
        processSingleMessage_def UpdateMessageStatus_def Let_def)
  show ?thesis
    using transitions_follow_state_machine [OF world0_facts(1), of "''sent''" "\<lambda>j. Inr zeroTime" "utc 0" "utc 0"
        "''z''" "''1''" "''x''" "utc 0" False wdbResponded "utc 10" msgA wdbSilent sendDown "utc 12" clock12
        "''a''" "Some ''pause''"] s
    by simp
qed

end
